theory Spec2Isabelle
  imports Complex_Main "HOL-Library.AList"
begin

section \<open>Coin collector: the authoritative server tick\<close>

text \<open>
  The server of \<^verbatim>\<open>server.py\<close> keeps every player in a dictionary from
  connections to player dictionaries and every coin in a list. One pass of
  \<^verbatim>\<open>game_loop\<close> spawns a coin, snapshots the players, moves each of them,
  resolves the collisions with the coins and broadcasts the state.

  Python's \<^verbatim>\<open>float\<close> values are modelled as real numbers: sums, products,
  quotients and \<^verbatim>\<open>math.hypot\<close> are exact here, and the rounding of IEEE
  doubles is not part of the model. Python's integers are \<open>int\<close>.
\<close>

subsection \<open>Constants of \<^verbatim>\<open>server.py\<close>\<close>

definition TICK_RATE :: int where
  "TICK_RATE = 20"

definition DT :: real where
  "DT = 1 / real_of_int TICK_RATE"

definition MAP_WIDTH :: int where
  "MAP_WIDTH = 800"

definition MAP_HEIGHT :: int where
  "MAP_HEIGHT = 600"

definition PLAYER_SPEED :: real where
  "PLAYER_SPEED = 200"

definition PLAYER_RADIUS :: int where
  "PLAYER_RADIUS = 20"

definition COIN_RADIUS :: int where
  "COIN_RADIUS = 15"

definition MAX_COINS :: nat where
  "MAX_COINS = 5"

subsection \<open>Players and coins\<close>

text \<open>
  The value of \<^verbatim>\<open>p["input"]\<close> is always a dictionary of four booleans: the
  server builds it itself, at the join and at every input message.
\<close>

record keys =
  up :: bool
  down :: bool
  left :: bool
  right :: bool

record player =
  p_id :: int
  p_x :: real
  p_y :: real
  p_score :: int
  p_input :: keys

text \<open>A coin is placed by \<^verbatim>\<open>random.randint\<close>: its coordinates are integers.\<close>

record coin =
  coin_id :: int
  coin_x :: int
  coin_y :: int

text \<open>
  \<^verbatim>\<open>list(players.items())\<close>: the snapshot of a tick, in the dictionary's
  insertion order. The player dictionaries of the snapshot are the ones of the registry,
  so what the tick writes to them is what the registry holds afterwards.
\<close>

type_synonym 'c snapshot = "('c \<times> player) list"

subsection \<open>Movement\<close>

definition hypot :: "real \<Rightarrow> real \<Rightarrow> real" where
  "hypot a b = sqrt (a * a + b * b)"

text \<open>The four \<^verbatim>\<open>if keys.get(...)\<close> statements, in the order of the source.\<close>

definition direction :: "keys \<Rightarrow> real \<times> real" where
  "direction k =
     (let dx = 0;
          dy = 0;
          dy = (if up k then dy - 1 else dy);
          dy = (if down k then dy + 1 else dy);
          dx = (if left k then dx - 1 else dx);
          dx = (if right k then dx + 1 else dx)
      in (dx, dy))"

definition normalise :: "real \<times> real \<Rightarrow> real \<times> real" where
  "normalise v =
     (let dx = fst v; dy = snd v; length = hypot dx dy
      in if length > 0 then (dx / length, dy / length) else (dx, dy))"

definition clamp_x :: "real \<Rightarrow> real" where
  "clamp_x v = max (real_of_int PLAYER_RADIUS) (min (real_of_int (MAP_WIDTH - PLAYER_RADIUS)) v)"

definition clamp_y :: "real \<Rightarrow> real" where
  "clamp_y v = max (real_of_int PLAYER_RADIUS) (min (real_of_int (MAP_HEIGHT - PLAYER_RADIUS)) v)"

text \<open>The body of the loop \<^verbatim>\<open>for conn, p in player_items\<close> that moves a player.\<close>

definition move_player :: "player \<Rightarrow> player" where
  "move_player p =
     (let d = normalise (direction (p_input p));
          x1 = p_x p + fst d * PLAYER_SPEED * DT;
          y1 = p_y p + snd d * PLAYER_SPEED * DT
      in p\<lparr>p_x := clamp_x x1, p_y := clamp_y y1\<rparr>)"

definition move_players :: "'c snapshot \<Rightarrow> 'c snapshot" where
  "move_players ps = map (\<lambda>(conn, p). (conn, move_player p)) ps"

subsection \<open>Collisions\<close>

text \<open>
  The test \<^verbatim>\<open>math.hypot(px - cx, py - cy) < (PLAYER_RADIUS + COIN_RADIUS)\<close>.
\<close>

definition in_range :: "coin \<Rightarrow> player \<Rightarrow> bool" where
  "in_range c p \<longleftrightarrow>
     hypot (p_x p - real_of_int (coin_x c)) (p_y p - real_of_int (coin_y c))
       < real_of_int (PLAYER_RADIUS + COIN_RADIUS)"

text \<open>
  The inner loop over the snapshot for one coin. The result is the snapshot after the
  loop and whether the loop left through its \<^verbatim>\<open>break\<close>, that is whether
  the coin's identifier was added to \<^verbatim>\<open>to_remove\<close>.
\<close>

fun collect_coin :: "coin \<Rightarrow> 'c snapshot \<Rightarrow> 'c snapshot \<times> bool" where
  "collect_coin c [] = ([], False)"
| "collect_coin c ((conn, p) # ps) =
     (if in_range c p then ((conn, p\<lparr>p_score := p_score p + 1\<rparr>) # ps, True)
      else (let r = collect_coin c ps in ((conn, p) # fst r, snd r)))"

text \<open>The outer loop \<^verbatim>\<open>for coin in coins\<close>, with the set \<^verbatim>\<open>to_remove\<close>.\<close>

fun sweep :: "coin list \<Rightarrow> 'c snapshot \<Rightarrow> int set \<Rightarrow> 'c snapshot \<times> int set" where
  "sweep [] ps to_remove = (ps, to_remove)"
| "sweep (c # cs) ps to_remove =
     (let r = collect_coin c ps
      in sweep cs (fst r) (if snd r then insert (coin_id c) to_remove else to_remove))"

text \<open>
  The whole block under \<^verbatim>\<open>coins_lock\<close>: the sweep, then the coins whose
  identifier was marked are dropped from the list.
\<close>

definition resolve_collisions :: "coin list \<Rightarrow> 'c snapshot \<Rightarrow> coin list \<times> 'c snapshot" where
  "resolve_collisions coins ps =
     (let r = sweep coins ps {};
          to_remove = snd r
      in (if to_remove \<noteq> {} then filter (\<lambda>c. coin_id c \<notin> to_remove) coins else coins,
          fst r))"

subsection \<open>Spawning and the tick\<close>

record world =
  coins :: "coin list"
  next_coin_id :: int
  last_spawn_time :: real

text \<open>
  \<^verbatim>\<open>spawn_coin\<close>; the two numbers drawn by \<^verbatim>\<open>random.randint\<close> are
  arguments.
\<close>

definition spawn_coin :: "int \<times> int \<Rightarrow> world \<Rightarrow> world" where
  "spawn_coin rnd w =
     w\<lparr>coins := coins w @ [\<lparr>coin_id = next_coin_id w, coin_x = fst rnd, coin_y = snd rnd\<rparr>],
       next_coin_id := next_coin_id w + 1\<rparr>"

definition spawn_step :: "real \<Rightarrow> int \<times> int \<Rightarrow> world \<Rightarrow> world" where
  "spawn_step now rnd w =
     (if length (coins w) < MAX_COINS \<and> now - last_spawn_time w > 2
      then (spawn_coin rnd w)\<lparr>last_spawn_time := now\<rparr>
      else w)"

text \<open>
  One pass of the \<^verbatim>\<open>while True\<close> loop, up to the snapshot that is broadcast:
  the clock reading \<open>now\<close>, the random numbers and the snapshot of the registry are
  the inputs of the pass.
\<close>

definition game_tick :: "real \<Rightarrow> int \<times> int \<Rightarrow> world \<Rightarrow> 'c snapshot \<Rightarrow> world \<times> 'c snapshot" where
  "game_tick now rnd w player_items =
     (let w1 = spawn_step now rnd w;
          moved = move_players player_items;
          r = resolve_collisions (coins w1) moved
      in (w1\<lparr>coins := fst r\<rparr>, snd r))"

subsection \<open>The first player in range\<close>

text \<open>
  The position in the snapshot of the first player that passes the distance test for a
  coin, if any: the player at which the inner loop of the sweep stops. It is used to
  state what the sweep computes.
\<close>

fun first_hit :: "coin \<Rightarrow> 'c snapshot \<Rightarrow> nat option" where
  "first_hit c [] = None"
| "first_hit c ((conn, p) # ps) =
     (if in_range c p then Some 0 else map_option Suc (first_hit c ps))"

subsection \<open>Coin identifiers\<close>

text \<open>
  The invariant of \<^verbatim>\<open>next_coin_id\<close>: the coins of the world have different
  identifiers, all below the counter.
\<close>

definition coin_ids_ok :: "world \<Rightarrow> bool" where
  "coin_ids_ok w \<longleftrightarrow>
     distinct (map coin_id (coins w)) \<and> list_all (\<lambda>c. coin_id c < next_coin_id w) (coins w)"

section \<open>Values of Python and of JSON\<close>

text \<open>
  The messages of the protocol are what \<^verbatim>\<open>json.loads\<close> returns: \<^verbatim>\<open>None\<close>,
  booleans, integers, floats, strings, lists and dictionaries. A dictionary is the list of
  its items; a key is looked up with \<open>map_of\<close>. The functions of the \<^verbatim>\<open>json\<close>
  module and the UTF-8 codec belong to Python's library: they are arguments of the
  functions below, and a theorem that needs a property of them assumes it.

  A string is a list of characters of Isabelle, which has 256 of them: the model covers
  the text whose code points are below 256, and the bytes of a socket. The output of
  \<^verbatim>\<open>json.dumps\<close> is ASCII (its \<^verbatim>\<open>ensure_ascii\<close> is set by default).
\<close>

datatype py_error = AttributeError | KeyError | TypeError | ValueError | UnicodeDecodeError

datatype json =
    JNull
  | JBool bool
  | JInt int
  | JFloat real
  | JStr string
  | JArr "json list"
  | JObj "(string \<times> json) list"

text \<open>An exception ends the computation: the first error is the result.\<close>

definition bind_result :: "py_error + 'a \<Rightarrow> ('a \<Rightarrow> py_error + 'b) \<Rightarrow> py_error + 'b" where
  "bind_result r f = (case r of Inl e \<Rightarrow> Inl e | Inr v \<Rightarrow> f v)"

text \<open>\<^verbatim>\<open>d.get(k, default)\<close>: only a dictionary has the method.\<close>

fun py_get :: "json \<Rightarrow> string \<Rightarrow> json \<Rightarrow> py_error + json" where
  "py_get (JObj kvs) k d = Inr (case map_of kvs k of None \<Rightarrow> d | Some v \<Rightarrow> v)"
| "py_get _ k d = Inl AttributeError"

text \<open>\<^verbatim>\<open>d[k]\<close> for a string \<open>k\<close>.\<close>

fun py_getitem :: "json \<Rightarrow> string \<Rightarrow> py_error + json" where
  "py_getitem (JObj kvs) k = (case map_of kvs k of None \<Rightarrow> Inl KeyError | Some v \<Rightarrow> Inr v)"
| "py_getitem _ k = Inl TypeError"

text \<open>\<^verbatim>\<open>bool(v)\<close>.\<close>

fun py_bool :: "json \<Rightarrow> bool" where
  "py_bool JNull = False"
| "py_bool (JBool b) = b"
| "py_bool (JInt i) = (i \<noteq> 0)"
| "py_bool (JFloat r) = (r \<noteq> 0)"
| "py_bool (JStr s) = (s \<noteq> [])"
| "py_bool (JArr xs) = (xs \<noteq> [])"
| "py_bool (JObj kvs) = (kvs \<noteq> [])"

text \<open>
  \<^verbatim>\<open>float(v)\<close>; the reading of a string as a number is the argument \<open>parse\<close>.
\<close>

fun py_float :: "(string \<Rightarrow> real option) \<Rightarrow> json \<Rightarrow> py_error + real" where
  "py_float parse (JInt i) = Inr (real_of_int i)"
| "py_float parse (JFloat r) = Inr r"
| "py_float parse (JBool b) = Inr (if b then 1 else 0)"
| "py_float parse (JStr s) = (case parse s of None \<Rightarrow> Inl ValueError | Some r \<Rightarrow> Inr r)"
| "py_float parse _ = Inl TypeError"

text \<open>The elements that \<^verbatim>\<open>for p in v\<close> runs through.\<close>

fun py_iter :: "json \<Rightarrow> py_error + json list" where
  "py_iter (JArr xs) = Inr xs"
| "py_iter (JObj kvs) = Inr (map (\<lambda>kv. JStr (fst kv)) kvs)"
| "py_iter (JStr s) = Inr (map (\<lambda>c. JStr [c]) s)"
| "py_iter _ = Inl TypeError"

text \<open>
  The keys of a dictionary or a set: lists and dictionaries cannot be hashed, and numbers
  that are equal are the same key (\<^verbatim>\<open>1 == 1.0 == True\<close>).
\<close>

datatype key = KNone | KNum real | KStr string

fun py_key :: "json \<Rightarrow> py_error + key" where
  "py_key JNull = Inr KNone"
| "py_key (JBool b) = Inr (KNum (if b then 1 else 0))"
| "py_key (JInt i) = Inr (KNum (real_of_int i))"
| "py_key (JFloat r) = Inr (KNum r)"
| "py_key (JStr s) = Inr (KStr s)"
| "py_key _ = Inl TypeError"

text \<open>
  \<^verbatim>\<open>str.strip()\<close>: the white space of Python among the code points below 256 is
  9 to 13, 28 to 32, 133 and 160.
\<close>

definition is_space :: "char \<Rightarrow> bool" where
  "is_space c =
     (let n = (of_char c :: nat)
      in (9 \<le> n \<and> n \<le> 13) \<or> (28 \<le> n \<and> n \<le> 32) \<or> n = 133 \<or> n = 160)"

definition strip :: "string \<Rightarrow> string" where
  "strip s = rev (dropWhile is_space (rev (dropWhile is_space s)))"

definition newline :: char where
  "newline = CHR 0x0A"

section \<open>The server's handler of a connection\<close>

text \<open>
  \<^verbatim>\<open>handle_client\<close> reads the lines of one connection. The registry
  \<^verbatim>\<open>players\<close> is the list of its items, in insertion order; the handler keeps
  \<^verbatim>\<open>player_id\<close> for itself. The start position drawn at a join is
  \<open>rnd\<close> of the identifier given to the player. The sleeps and the welcome message
  that is sent back are left out.
\<close>

record 'c server =
  players :: "('c \<times> player) list"
  next_player_id :: int

datatype control = Next | Stop

datatype ending = EndOfStream | Break | Raised py_error

text \<open>The four \<^verbatim>\<open>bool(keys.get(..., False))\<close> of an input message.\<close>

definition read_keys :: "json \<Rightarrow> py_error + keys" where
  "read_keys ks =
     bind_result (py_get ks ''up'' (JBool False)) (\<lambda>u.
     bind_result (py_get ks ''down'' (JBool False)) (\<lambda>d.
     bind_result (py_get ks ''left'' (JBool False)) (\<lambda>l.
     bind_result (py_get ks ''right'' (JBool False)) (\<lambda>r.
       Inr \<lparr>up = py_bool u, down = py_bool d, left = py_bool l, right = py_bool r\<rparr>))))"

text \<open>The body of the loop from \<^verbatim>\<open>mtype = msg.get("type")\<close> on.\<close>

definition handle_message ::
  "(int \<Rightarrow> int \<times> int) \<Rightarrow> 'c \<Rightarrow> json \<Rightarrow> 'c server \<times> int option
     \<Rightarrow> py_error + ('c server \<times> int option)" where
  "handle_message rnd conn msg s =
     (let st = fst s; player_id = snd s
      in bind_result (py_get msg ''type'' JNull) (\<lambda>mtype.
           if mtype = JStr ''join'' then
             (let pid = next_player_id st; start = rnd pid
              in Inr (st\<lparr>players := AList.update conn
                          \<lparr>p_id = pid, p_x = real_of_int (fst start),
                           p_y = real_of_int (snd start), p_score = 0,
                           p_input = \<lparr>up = False, down = False, left = False, right = False\<rparr>\<rparr>
                          (players st),
                        next_player_id := pid + 1\<rparr>,
                      Some pid))
           else if mtype = JStr ''input'' \<and> player_id \<noteq> None then
             bind_result (py_get msg ''keys'' (JObj [])) (\<lambda>ks.
               case map_of (players st) conn of
                 None \<Rightarrow> Inr s
               | Some p \<Rightarrow>
                   bind_result (read_keys ks) (\<lambda>k.
                     Inr (st\<lparr>players := AList.update conn (p\<lparr>p_input := k\<rparr>) (players st)\<rparr>,
                          player_id)))
           else Inr s))"

text \<open>
  One line of \<^verbatim>\<open>for line in f\<close>: an empty line leaves the loop, a line that
  \<^verbatim>\<open>json.loads\<close> rejects is skipped.
\<close>

definition handle_line ::
  "(string \<Rightarrow> json option) \<Rightarrow> (int \<Rightarrow> int \<times> int) \<Rightarrow> 'c \<Rightarrow> string \<Rightarrow> 'c server \<times> int option
     \<Rightarrow> py_error + (control \<times> ('c server \<times> int option))" where
  "handle_line loads rnd conn line s =
     (let line = strip line
      in if line = [] then Inr (Stop, s)
         else (case loads line of
                 None \<Rightarrow> Inr (Next, s)
               | Some msg \<Rightarrow> bind_result (handle_message rnd conn msg s) (\<lambda>s'. Inr (Next, s'))))"

text \<open>The loop, with the way it ends: the lines are over, a break, or an exception.\<close>

fun handle_lines ::
  "(string \<Rightarrow> json option) \<Rightarrow> (int \<Rightarrow> int \<times> int) \<Rightarrow> 'c \<Rightarrow> string list \<Rightarrow> 'c server \<times> int option
     \<Rightarrow> ending \<times> ('c server \<times> int option)" where
  "handle_lines loads rnd conn [] s = (EndOfStream, s)"
| "handle_lines loads rnd conn (line # lines) s =
     (case handle_line loads rnd conn line s of
        Inl e \<Rightarrow> (Raised e, s)
      | Inr (Stop, s') \<Rightarrow> (Break, s')
      | Inr (Next, s') \<Rightarrow> handle_lines loads rnd conn lines s')"

text \<open>The whole function: whatever ended the loop, the player of the connection is removed.\<close>

definition handle_client ::
  "(string \<Rightarrow> json option) \<Rightarrow> (int \<Rightarrow> int \<times> int) \<Rightarrow> 'c \<Rightarrow> string list \<Rightarrow> 'c server
     \<Rightarrow> ending \<times> 'c server" where
  "handle_client loads rnd conn lines st =
     (let r = handle_lines loads rnd conn lines (st, None);
          st' = fst (snd r)
      in (fst r, st'\<lparr>players := AList.delete conn (players st')\<rparr>))"

section \<open>Message framing\<close>

text \<open>
  \<^verbatim>\<open>send_message\<close> of the server: the bytes handed to \<^verbatim>\<open>sendall\<close>.
\<close>

definition send_message :: "(string \<Rightarrow> string) \<Rightarrow> (json \<Rightarrow> string) \<Rightarrow> json \<Rightarrow> string" where
  "send_message encode dumps obj = encode (dumps obj @ [newline])"

text \<open>What \<^verbatim>\<open>sock.recv(4096)\<close> does in \<^verbatim>\<open>recv_messages\<close> of the client.\<close>

datatype recv_result = Data string | BlockingIOError | ConnectionResetError | OSError

text \<open>\<^verbatim>\<open>line, buffer = buffer.split("\n", 1)\<close>, when the buffer has a line break.\<close>

definition first_line :: "string \<Rightarrow> string" where
  "first_line buffer = takeWhile (\<lambda>c. c \<noteq> newline) buffer"

definition after_first_line :: "string \<Rightarrow> string" where
  "after_first_line buffer = tl (dropWhile (\<lambda>c. c \<noteq> newline) buffer)"

text \<open>The \<^verbatim>\<open>while True\<close> loop of \<^verbatim>\<open>recv_messages\<close>.\<close>

function recv_loop :: "(string \<Rightarrow> json option) \<Rightarrow> string \<Rightarrow> json list \<Rightarrow> string \<times> json list" where
  "recv_loop loads buffer messages =
     (if newline \<notin> set buffer then (buffer, messages)
      else if strip (first_line buffer) = [] then recv_loop loads (after_first_line buffer) messages
      else (case loads (strip (first_line buffer)) of
              Some msg \<Rightarrow> recv_loop loads (after_first_line buffer) (messages @ [msg])
            | None \<Rightarrow> recv_loop loads (after_first_line buffer) messages))"
  by pat_completeness auto
termination
proof -
  have less: "length (after_first_line buffer) < length buffer" if "newline \<in> set buffer"
    for buffer
  proof -
    from that have "dropWhile (\<lambda>c. c \<noteq> newline) buffer \<noteq> []" by auto
    then have "length (after_first_line buffer) < length (dropWhile (\<lambda>c. c \<noteq> newline) buffer)"
      by (simp add: after_first_line_def)
    also have "\<dots> \<le> length buffer" by (rule length_dropWhile_le)
    finally show ?thesis .
  qed
  show ?thesis
    by (relation "measure (\<lambda>(loads, buffer, messages). length buffer)") (simp_all add: less)
qed

declare recv_loop.simps [simp del]

text \<open>
  \<^verbatim>\<open>recv_messages\<close>. A chunk that is not valid UTF-8 raises
  \<^verbatim>\<open>UnicodeDecodeError\<close>, which none of the handlers of the function catches.
\<close>

definition recv_messages ::
  "(string \<Rightarrow> string option) \<Rightarrow> (string \<Rightarrow> json option) \<Rightarrow> recv_result \<Rightarrow> string
     \<Rightarrow> py_error + (string \<times> json list)" where
  "recv_messages decode loads r buffer =
     (case r of
        Data data \<Rightarrow>
          if data = [] then Inr (buffer, [])
          else (case decode data of
                  None \<Rightarrow> Inl UnicodeDecodeError
                | Some s \<Rightarrow> Inr (recv_loop loads (buffer @ s) []))
      | _ \<Rightarrow> Inr (buffer, []))"

text \<open>
  The calls of \<^verbatim>\<open>recv_messages\<close> of successive frames of \<^verbatim>\<open>main\<close>, each
  with the buffer the call before returned, and all the messages they return.
\<close>

fun recv_frames ::
  "(string \<Rightarrow> string option) \<Rightarrow> (string \<Rightarrow> json option) \<Rightarrow> recv_result list \<Rightarrow> string
     \<Rightarrow> py_error + (string \<times> json list)" where
  "recv_frames decode loads [] buffer = Inr (buffer, [])"
| "recv_frames decode loads (r # rs) buffer =
     bind_result (recv_messages decode loads r buffer) (\<lambda>b.
     bind_result (recv_frames decode loads rs (fst b)) (\<lambda>b'.
       Inr (fst b', snd b @ snd b')))"

section \<open>The client: entities, interpolation and correction\<close>

subsection \<open>Constants of \<^verbatim>\<open>client.py\<close>\<close>

definition INTERP_DURATION :: real where
  "INTERP_DURATION = 1 / 10"

definition correct_speed :: real where
  "correct_speed = 15 / 100"

subsection \<open>The interpolation state\<close>

text \<open>
  A value of \<^verbatim>\<open>entity_state\<close>. The keys \<^verbatim>\<open>x_draw\<close> and
  \<^verbatim>\<open>y_draw\<close> are absent until the entity is drawn as the local player.
\<close>

record entity =
  x_prev :: real
  y_prev :: real
  ent_x :: real
  ent_y :: real
  ent_t :: real
  ent_score :: json
  x_draw :: "real option"
  y_draw :: "real option"

type_synonym entities = "(key \<times> entity) list"

text \<open>
  The body of the loop of \<^verbatim>\<open>update_entities_from_server\<close> for one element of
  the list, on the dictionary and on \<^verbatim>\<open>seen_ids\<close>.
\<close>

definition update_entity ::
  "(string \<Rightarrow> real option) \<Rightarrow> json \<Rightarrow> entities \<times> key set \<Rightarrow> py_error + (entities \<times> key set)" where
  "update_entity parse p s =
     bind_result (py_getitem p ''id'') (\<lambda>pid.
     bind_result (py_getitem p ''x'') (\<lambda>xv.
     bind_result (py_float parse xv) (\<lambda>x.
     bind_result (py_getitem p ''y'') (\<lambda>yv.
     bind_result (py_float parse yv) (\<lambda>y.
     bind_result (py_getitem p ''score'') (\<lambda>score.
     bind_result (py_key pid) (\<lambda>k.
       (case map_of (fst s) k of
          None \<Rightarrow>
            Inr (AList.update k
                   \<lparr>x_prev = x, y_prev = y, ent_x = x, ent_y = y, ent_t = 0,
                    ent_score = score, x_draw = None, y_draw = None\<rparr> (fst s),
                 insert k (snd s))
        | Some ent \<Rightarrow>
            Inr (AList.update k
                   (ent\<lparr>x_prev := ent_x ent, y_prev := ent_y ent, ent_x := x, ent_y := y,
                        ent_t := 0, ent_score := score\<rparr>) (fst s),
                 insert k (snd s))))))))))"

fun update_loop ::
  "(string \<Rightarrow> real option) \<Rightarrow> json list \<Rightarrow> entities \<times> key set \<Rightarrow> py_error + (entities \<times> key set)" where
  "update_loop parse [] s = Inr s"
| "update_loop parse (p # ps) s = bind_result (update_entity parse p s) (update_loop parse ps)"

text \<open>
  \<^verbatim>\<open>update_entities_from_server\<close>: the loop, then the entities whose
  identifier was not seen are deleted.
\<close>

definition update_entities_from_server ::
  "(string \<Rightarrow> real option) \<Rightarrow> json \<Rightarrow> entities \<Rightarrow> py_error + entities" where
  "update_entities_from_server parse players_list entity_state =
     bind_result (py_iter players_list) (\<lambda>ps.
     bind_result (update_loop parse ps (entity_state, {})) (\<lambda>s.
       Inr (filter (\<lambda>kv. fst kv \<in> snd s) (fst s))))"

subsection \<open>The messages of the server\<close>

record client =
  my_id :: json
  world_coins :: json
  entity_state :: entities


subsection \<open>A frame\<close>

text \<open>\<^verbatim>\<open>ent["t"] += dt\<close> for every entity.\<close>

definition advance_timers :: "real \<Rightarrow> entities \<Rightarrow> entities" where
  "advance_timers dt es = map (\<lambda>kv. (fst kv, (snd kv)\<lparr>ent_t := ent_t (snd kv) + dt\<rparr>)) es"

text \<open>The position at which a remote player is drawn.\<close>

definition remote_position :: "entity \<Rightarrow> real \<times> real" where
  "remote_position ent =
     (let alpha = min (ent_t ent / INTERP_DURATION) 1
      in (x_prev ent + (ent_x ent - x_prev ent) * alpha,
          y_prev ent + (ent_y ent - y_prev ent) * alpha))"

text \<open>
  \<^verbatim>\<open>ent.get("x_draw", ent["x"])\<close> and \<^verbatim>\<open>ent.get("y_draw", ent["y"])\<close>:
  the visual position of the local player before the frame.
\<close>

definition visual :: "entity \<Rightarrow> real \<times> real" where
  "visual ent =
     (case x_draw ent of None \<Rightarrow> ent_x ent | Some v \<Rightarrow> v,
      case y_draw ent of None \<Rightarrow> ent_y ent | Some v \<Rightarrow> v)"

text \<open>
  The correction of the local player in one frame. The source fixes the rate in the
  local variable \<^verbatim>\<open>correct_speed\<close>; here the rate is an argument, and
  \<open>draw_entity\<close> passes the constant of the source.
\<close>

definition local_correction :: "real \<Rightarrow> entity \<Rightarrow> entity" where
  "local_correction rate ent =
     (let xd = fst (visual ent);
          yd = snd (visual ent);
          xd = xd + (ent_x ent - xd) * rate;
          yd = yd + (ent_y ent - yd) * rate
      in ent\<lparr>x_draw := Some xd, y_draw := Some yd\<rparr>)"

text \<open>
  One pass of the loop that draws the players: the position drawn and the entity as the
  pass leaves it.
\<close>

definition draw_entity :: "json \<Rightarrow> key \<times> entity \<Rightarrow> (real \<times> real) \<times> entity" where
  "draw_entity me kv =
     (if Inr (fst kv) \<noteq> py_key me then (remote_position (snd kv), snd kv)
      else (let ent = local_correction correct_speed (snd kv) in (visual ent, ent)))"

text \<open>The local player over \<open>n\<close> frames in which no message changes the entity.\<close>

definition local_frames :: "real \<Rightarrow> nat \<Rightarrow> entity \<Rightarrow> entity" where
  "local_frames rate n ent = (local_correction rate ^^ n) ent"



text \<open>The strings of ASCII characters, and what one complete line adds to the messages.\<close>

definition ascii :: "string \<Rightarrow> bool" where
  "ascii s = list_all (\<lambda>c. (of_char c :: nat) < 128) s"

definition decode_line :: "(string \<Rightarrow> json option) \<Rightarrow> string \<Rightarrow> json list" where
  "decode_line loads line =
     (if strip line = [] then []
      else (case loads (strip line) of Some msg \<Rightarrow> [msg] | None \<Rightarrow> []))"

section \<open>Properties of the server tick\<close>

lemmas cdefs = TICK_RATE_def DT_def MAP_WIDTH_def MAP_HEIGHT_def PLAYER_SPEED_def
  PLAYER_RADIUS_def COIN_RADIUS_def

lemma clamp_x_bounds:
  "real_of_int PLAYER_RADIUS \<le> clamp_x v \<and> clamp_x v \<le> real_of_int (MAP_WIDTH - PLAYER_RADIUS)"
  by (simp add: clamp_x_def MAP_WIDTH_def PLAYER_RADIUS_def)

lemma clamp_y_bounds:
  "real_of_int PLAYER_RADIUS \<le> clamp_y v \<and> clamp_y v \<le> real_of_int (MAP_HEIGHT - PLAYER_RADIUS)"
  by (simp add: clamp_y_def MAP_HEIGHT_def PLAYER_RADIUS_def)

lemma hypot_less_iff: "0 \<le> r \<Longrightarrow> hypot a b < r \<longleftrightarrow> a * a + b * b < r * r"
proof -
  assume r: "0 \<le> r"
  have "sqrt (r * r) = r" using r by simp
  then have "hypot a b < r \<longleftrightarrow> sqrt (a * a + b * b) < sqrt (r * r)"
    by (simp add: hypot_def)
  also have "\<dots> \<longleftrightarrow> a * a + b * b < r * r"
    by (simp only: real_sqrt_less_iff)
  finally show ?thesis .
qed

lemma in_range_iff:
  "in_range c p \<longleftrightarrow>
     (p_x p - real_of_int (coin_x c)) * (p_x p - real_of_int (coin_x c)) +
     (p_y p - real_of_int (coin_y c)) * (p_y p - real_of_int (coin_y c)) < 1225"
  by (simp add: in_range_def hypot_less_iff PLAYER_RADIUS_def COIN_RADIUS_def)

lemma in_range_score [simp]: "in_range c (p\<lparr>p_score := s\<rparr>) = in_range c p"
  by (simp add: in_range_def)

lemma first_hit_None_iff: "first_hit c ps = None \<longleftrightarrow> (\<forall>e \<in> set ps. \<not> in_range c (snd e))"
  by (induction c ps rule: first_hit.induct) auto

lemma first_hit_Some_iff:
  "first_hit c ps = Some i \<longleftrightarrow>
     i < length ps \<and> in_range c (snd (ps ! i)) \<and> (\<forall>k<i. \<not> in_range c (snd (ps ! k)))"
proof (induction c ps arbitrary: i rule: first_hit.induct)
  case (1 c)
  show ?case by simp
next
  case (2 c conn p ps)
  show ?case
  proof (cases "in_range c p")
    case True
    then show ?thesis by (cases i) auto
  next
    case False
    show ?thesis
    proof (cases i)
      case 0
      with False show ?thesis by auto
    next
      case (Suc j)
      have "(\<forall>k<Suc j. \<not> in_range c (snd (((conn, p) # ps) ! k))) \<longleftrightarrow>
            (\<forall>k<j. \<not> in_range c (snd (ps ! k)))"
        using False by (auto simp: less_Suc_eq_0_disj)
      with False Suc 2 [of j] show ?thesis by auto
    qed
  qed
qed

lemma collect_coin_hit:
  "first_hit c ps = Some i \<Longrightarrow>
     collect_coin c ps =
       (ps[i := (fst (ps ! i), (snd (ps ! i))\<lparr>p_score := p_score (snd (ps ! i)) + 1\<rparr>)], True)"
proof (induction c ps arbitrary: i rule: first_hit.induct)
  case (1 c)
  then show ?case by simp
next
  case (2 c conn p ps)
  show ?case
  proof (cases "in_range c p")
    case True
    with "2.prems" show ?thesis by simp
  next
    case False
    with "2.prems" obtain j where j: "first_hit c ps = Some j" "i = Suc j" by auto
    with False "2.IH" [of j] show ?thesis by simp
  qed
qed

lemma collect_coin_miss: "first_hit c ps = None \<Longrightarrow> collect_coin c ps = (ps, False)"
  by (induction c ps rule: first_hit.induct) (auto split: if_splits)

lemma collect_coin_length [simp]: "length (fst (collect_coin c ps)) = length ps"
  by (induction c ps rule: collect_coin.induct) (auto simp: Let_def)

lemma collect_coin_flag: "snd (collect_coin c ps) \<longleftrightarrow> first_hit c ps \<noteq> None"
  by (induction c ps rule: first_hit.induct) (auto simp: Let_def)

lemma first_hit_collect_coin [simp]: "first_hit c (fst (collect_coin c' ps)) = first_hit c ps"
  by (induction c' ps rule: collect_coin.induct) (auto simp: Let_def)

lemma collect_coin_score:
  "i < length ps \<Longrightarrow>
     p_score (snd (fst (collect_coin c ps) ! i)) =
       p_score (snd (ps ! i)) + (if first_hit c ps = Some i then 1 else 0)"
proof (cases "first_hit c ps")
  case None
  then show ?thesis by (simp add: collect_coin_miss)
next
  case (Some j)
  assume "i < length ps"
  with Some show ?thesis by (simp add: collect_coin_hit nth_list_update)
qed

lemma sweep_length [simp]: "length (fst (sweep cs ps tr)) = length ps"
  by (induction cs arbitrary: ps tr) (auto simp: Let_def)

lemma sweep_score:
  "i < length ps \<Longrightarrow>
     p_score (snd (fst (sweep cs ps tr) ! i)) =
       p_score (snd (ps ! i)) + int (length (filter (\<lambda>c. first_hit c ps = Some i) cs))"
proof (induction cs arbitrary: ps tr)
  case Nil
  then show ?case by simp
next
  case (Cons c cs)
  then show ?case by (simp add: Let_def collect_coin_score)
qed

lemma sweep_to_remove:
  "snd (sweep cs ps tr) = tr \<union> coin_id ` {c \<in> set cs. first_hit c ps \<noteq> None}"
proof (induction cs arbitrary: ps tr)
  case Nil
  then show ?case by simp
next
  case (Cons c cs)
  then show ?case by (auto simp: Let_def collect_coin_flag)
qed

lemma resolve_collisions_coins:
  "fst (resolve_collisions cs ps) =
     filter (\<lambda>c. coin_id c \<notin> coin_id ` {c \<in> set cs. first_hit c ps \<noteq> None}) cs"
proof -
  let ?tr = "coin_id ` {c \<in> set cs. first_hit c ps \<noteq> None}"
  have tr: "snd (sweep cs ps {}) = ?tr" by (simp add: sweep_to_remove)
  show ?thesis
  proof (cases "?tr = {}")
    case True
    have "filter (\<lambda>c. coin_id c \<notin> ?tr) cs = cs" unfolding True by simp
    with True tr show ?thesis by (simp add: resolve_collisions_def Let_def)
  next
    case False
    with tr show ?thesis by (simp add: resolve_collisions_def Let_def)
  qed
qed

lemma resolve_collisions_players: "snd (resolve_collisions cs ps) = fst (sweep cs ps {})"
  by (simp add: resolve_collisions_def Let_def)

lemma collect_coin_nth:
  "i < length ps \<Longrightarrow>
     fst (collect_coin c ps) ! i =
       (if first_hit c ps = Some i
        then (fst (ps ! i), (snd (ps ! i))\<lparr>p_score := p_score (snd (ps ! i)) + 1\<rparr>)
        else ps ! i)"
proof (cases "first_hit c ps")
  case None
  then show ?thesis by (simp add: collect_coin_miss)
next
  case (Some j)
  assume "i < length ps"
  with Some show ?thesis by (auto simp: collect_coin_hit nth_list_update)
qed

lemma collect_coin_keeps:
  assumes "i < length ps"
  shows "fst (fst (collect_coin c ps) ! i) = fst (ps ! i)"
    and "p_x (snd (fst (collect_coin c ps) ! i)) = p_x (snd (ps ! i))"
    and "p_y (snd (fst (collect_coin c ps) ! i)) = p_y (snd (ps ! i))"
  using assms by (simp_all add: collect_coin_nth)

lemma sweep_keeps:
  "i < length ps \<Longrightarrow>
     fst (fst (sweep cs ps tr) ! i) = fst (ps ! i) \<and>
     p_x (snd (fst (sweep cs ps tr) ! i)) = p_x (snd (ps ! i)) \<and>
     p_y (snd (fst (sweep cs ps tr) ! i)) = p_y (snd (ps ! i))"
proof (induction cs arbitrary: ps tr)
  case Nil
  then show ?case by simp
next
  case (Cons c cs)
  then show ?case by (simp add: Let_def collect_coin_keeps)
qed

lemma game_tick_length [simp]: "length (snd (game_tick now rnd w ps)) = length ps"
  by (simp add: game_tick_def Let_def resolve_collisions_players move_players_def)

lemma game_tick_nth:
  assumes "i < length ps"
  shows "fst (snd (game_tick now rnd w ps) ! i) = fst (ps ! i)"
    and "p_x (snd (snd (game_tick now rnd w ps) ! i)) = p_x (move_player (snd (ps ! i)))"
    and "p_y (snd (snd (game_tick now rnd w ps) ! i)) = p_y (move_player (snd (ps ! i)))"
  using assms sweep_keeps [of i "move_players ps" "coins (spawn_step now rnd w)" "{}"]
  by (simp_all add: game_tick_def Let_def resolve_collisions_players move_players_def
      case_prod_beta)

subsection \<open>Positions after a tick\<close>

text \<open>
  Claim C1. Whatever the clock, the random numbers, the world and the snapshot of a tick
  are, and whatever input flags and position a player has before it, every player of the
  snapshot has after the tick an abscissa between \<open>PLAYER_RADIUS\<close> and
  \<open>MAP_WIDTH - PLAYER_RADIUS\<close> and an ordinate between \<open>PLAYER_RADIUS\<close> and
  \<open>MAP_HEIGHT - PLAYER_RADIUS\<close>.
\<close>

theorem tick_keeps_players_in_bounds:
  assumes "(conn, p) \<in> set (snd (game_tick now rnd w player_items))"
  shows "real_of_int PLAYER_RADIUS \<le> p_x p \<and> p_x p \<le> real_of_int (MAP_WIDTH - PLAYER_RADIUS) \<and>
         real_of_int PLAYER_RADIUS \<le> p_y p \<and> p_y p \<le> real_of_int (MAP_HEIGHT - PLAYER_RADIUS)"
proof -
  from assms obtain i where i: "i < length player_items"
      and p: "snd (game_tick now rnd w player_items) ! i = (conn, p)"
    by (auto simp: in_set_conv_nth)
  let ?q = "move_player (snd (player_items ! i))"
  have "p_x p = p_x ?q" "p_y p = p_y ?q"
    using game_tick_nth(2,3) [OF i, of now rnd w] p by simp_all
  moreover have "p_x ?q = clamp_x (p_x (snd (player_items ! i)) +
        fst (normalise (direction (p_input (snd (player_items ! i))))) * PLAYER_SPEED * DT)"
    by (simp add: move_player_def Let_def)
  moreover have "p_y ?q = clamp_y (p_y (snd (player_items ! i)) +
        snd (normalise (direction (p_input (snd (player_items ! i))))) * PLAYER_SPEED * DT)"
    by (simp add: move_player_def Let_def)
  ultimately show ?thesis
    using clamp_x_bounds clamp_y_bounds by simp
qed

text \<open>
  A player at (775, 300) who holds "right": the step of 10 would lead to 785, and the
  tick leaves the player at 780.
\<close>

theorem tick_keeps_players_in_bounds_witness:
  "(0::nat, \<lparr>p_id = 1, p_x = 780, p_y = 300, p_score = 0,
      p_input = \<lparr>up = False, down = False, left = False, right = True\<rparr>\<rparr>)
     \<in> set (snd (game_tick 3 (50, 60) \<lparr>coins = [], next_coin_id = 1, last_spawn_time = 0\<rparr>
         [(0, \<lparr>p_id = 1, p_x = 775, p_y = 300, p_score = 0,
            p_input = \<lparr>up = False, down = False, left = False, right = True\<rparr>\<rparr>)])) \<and>
   real_of_int PLAYER_RADIUS \<le> 780 \<and> (780::real) \<le> real_of_int (MAP_WIDTH - PLAYER_RADIUS) \<and>
   real_of_int PLAYER_RADIUS \<le> 300 \<and> (300::real) \<le> real_of_int (MAP_HEIGHT - PLAYER_RADIUS)"
proof -
  let ?p = "\<lparr>p_id = 1, p_x = 780, p_y = 300, p_score = 0,
      p_input = \<lparr>up = False, down = False, left = False, right = True\<rparr>\<rparr>"
  have mem: "(0::nat, ?p)
     \<in> set (snd (game_tick 3 (50, 60) \<lparr>coins = [], next_coin_id = 1, last_spawn_time = 0\<rparr>
         [(0, \<lparr>p_id = 1, p_x = 775, p_y = 300, p_score = 0,
            p_input = \<lparr>up = False, down = False, left = False, right = True\<rparr>\<rparr>)]))"
    by (simp add: game_tick_def spawn_step_def spawn_coin_def move_players_def move_player_def
        normalise_def direction_def hypot_def clamp_x_def clamp_y_def resolve_collisions_def
        in_range_iff cdefs MAX_COINS_def Let_def)
  from tick_keeps_players_in_bounds [OF mem] mem show ?thesis by simp
qed

subsection \<open>Diagonal movement\<close>











subsection \<open>The collision sweep\<close>

lemma sweep_append:
  "sweep (xs @ ys) ps tr = sweep ys (fst (sweep xs ps tr)) (snd (sweep xs ps tr))"
  by (induction xs arbitrary: ps tr) (simp_all add: Let_def)

lemma first_hit_sweep [simp]: "first_hit c (fst (sweep cs ps tr)) = first_hit c ps"
  by (induction cs arbitrary: ps tr) (simp_all add: Let_def)

text \<open>
  Claim C2. Let a coin of the list be within the threshold of the players at positions
  \<open>i < j\<close> of the snapshot and of no player before \<open>i\<close>. Then the inner loop
  for that coin, run after the coins before it, changes the snapshot at position \<open>i\<close>
  alone, where the score grows by exactly one; the entry of the later player \<open>j\<close> is
  what it was before the coin; and the coin is not in the list of coins after the sweep.
\<close>

theorem first_player_in_range_collects:
  assumes "cs = cs1 @ c # cs2"
    and "i < j" and "j < length ps"
    and "in_range c (snd (ps ! i))" and "in_range c (snd (ps ! j))"
    and "\<forall>k<i. \<not> in_range c (snd (ps ! k))"
  shows "fst (sweep (cs1 @ [c]) ps {}) =
           (fst (sweep cs1 ps {}))[i :=
              (fst (fst (sweep cs1 ps {}) ! i),
               (snd (fst (sweep cs1 ps {}) ! i))
                 \<lparr>p_score := p_score (snd (fst (sweep cs1 ps {}) ! i)) + 1\<rparr>)] \<and>
         fst (sweep (cs1 @ [c]) ps {}) ! j = fst (sweep cs1 ps {}) ! j \<and>
         c \<notin> set (fst (resolve_collisions cs ps))"
proof -
  let ?qs = "fst (sweep cs1 ps {})"
  from assms have "first_hit c ps = Some i"
    by (simp add: first_hit_Some_iff)
  then have fh: "first_hit c ?qs = Some i" by simp
  have 1: "fst (sweep (cs1 @ [c]) ps {}) =
      ?qs[i := (fst (?qs ! i), (snd (?qs ! i))\<lparr>p_score := p_score (snd (?qs ! i)) + 1\<rparr>)]"
    by (simp add: sweep_append Let_def collect_coin_hit [OF fh])
  have 2: "fst (sweep (cs1 @ [c]) ps {}) ! j = ?qs ! j"
    using assms(2,3) by (simp add: 1)
  have "coin_id c \<in> coin_id ` {c \<in> set cs. first_hit c ps \<noteq> None}"
    using assms(1) \<open>first_hit c ps = Some i\<close> by auto
  then have 3: "c \<notin> set (fst (resolve_collisions cs ps))"
    by (simp add: resolve_collisions_coins)
  from 1 2 3 show ?thesis by simp
qed

text \<open>
  Two players 10 to the left and 10 to the right of coin 7, and a coin 3 far from both:
  the first player has the point, the second has none, coin 7 is gone and coin 3 stays.
\<close>

theorem first_player_in_range_collects_witness:
  "in_range \<lparr>coin_id = 7, coin_x = 110, coin_y = 100\<rparr>
     \<lparr>p_id = 1, p_x = 100, p_y = 100, p_score = 0,
        p_input = \<lparr>up = False, down = False, left = False, right = False\<rparr>\<rparr> \<and>
   in_range \<lparr>coin_id = 7, coin_x = 110, coin_y = 100\<rparr>
     \<lparr>p_id = 2, p_x = 120, p_y = 100, p_score = 0,
        p_input = \<lparr>up = False, down = False, left = False, right = False\<rparr>\<rparr> \<and>
   resolve_collisions
     [\<lparr>coin_id = 3, coin_x = 300, coin_y = 300\<rparr>, \<lparr>coin_id = 7, coin_x = 110, coin_y = 100\<rparr>]
     [(0::nat, \<lparr>p_id = 1, p_x = 100, p_y = 100, p_score = 0,
         p_input = \<lparr>up = False, down = False, left = False, right = False\<rparr>\<rparr>),
      (1, \<lparr>p_id = 2, p_x = 120, p_y = 100, p_score = 0,
         p_input = \<lparr>up = False, down = False, left = False, right = False\<rparr>\<rparr>)]
   = ([\<lparr>coin_id = 3, coin_x = 300, coin_y = 300\<rparr>],
      [(0, \<lparr>p_id = 1, p_x = 100, p_y = 100, p_score = 1,
         p_input = \<lparr>up = False, down = False, left = False, right = False\<rparr>\<rparr>),
       (1, \<lparr>p_id = 2, p_x = 120, p_y = 100, p_score = 0,
         p_input = \<lparr>up = False, down = False, left = False, right = False\<rparr>\<rparr>)]) \<and>
   \<lparr>coin_id = 7, coin_x = 110, coin_y = 100\<rparr> \<notin> set (fst (resolve_collisions
     [\<lparr>coin_id = 3, coin_x = 300, coin_y = 300\<rparr>, \<lparr>coin_id = 7, coin_x = 110, coin_y = 100\<rparr>]
     [(0::nat, \<lparr>p_id = 1, p_x = 100, p_y = 100, p_score = 0,
         p_input = \<lparr>up = False, down = False, left = False, right = False\<rparr>\<rparr>),
      (1, \<lparr>p_id = 2, p_x = 120, p_y = 100, p_score = 0,
         p_input = \<lparr>up = False, down = False, left = False, right = False\<rparr>\<rparr>)]))"
proof -
  let ?c = "\<lparr>coin_id = 7, coin_x = 110, coin_y = 100\<rparr>"
  let ?d = "\<lparr>coin_id = 3, coin_x = 300, coin_y = 300\<rparr>"
  let ?ps = "[(0::nat, \<lparr>p_id = 1, p_x = 100, p_y = 100, p_score = 0,
         p_input = \<lparr>up = False, down = False, left = False, right = False\<rparr>\<rparr>),
      (1, \<lparr>p_id = 2, p_x = 120, p_y = 100, p_score = 0,
         p_input = \<lparr>up = False, down = False, left = False, right = False\<rparr>\<rparr>)]"
  have a: "in_range ?c (snd (?ps ! 0))" and b: "in_range ?c (snd (?ps ! 1))"
    by (simp_all add: in_range_iff)
  have r: "resolve_collisions [?d, ?c] ?ps =
     ([?d],
      [(0, \<lparr>p_id = 1, p_x = 100, p_y = 100, p_score = 1,
         p_input = \<lparr>up = False, down = False, left = False, right = False\<rparr>\<rparr>),
       (1, \<lparr>p_id = 2, p_x = 120, p_y = 100, p_score = 0,
         p_input = \<lparr>up = False, down = False, left = False, right = False\<rparr>\<rparr>)])"
    by (simp add: resolve_collisions_def in_range_iff Let_def)
  have "?c \<notin> set (fst (resolve_collisions [?d, ?c] ?ps))"
    by (rule first_player_in_range_collects [of "[?d, ?c]" "[?d]" ?c "[]" 0 1 ?ps,
          THEN conjunct2, THEN conjunct2])
      (simp_all add: in_range_iff)
  with a b r show ?thesis by simp
qed

lemma hypot_ge_iff: "0 \<le> r \<Longrightarrow> r \<le> hypot a b \<longleftrightarrow> r * r \<le> a * a + b * b"
  using hypot_less_iff [of r a b] by auto

lemma sweep_score_resolve:
  "i < length ps \<Longrightarrow>
     p_score (snd (snd (resolve_collisions cs ps) ! i)) =
       p_score (snd (ps ! i)) + int (length (filter (\<lambda>c. first_hit c ps = Some i) cs))"
  by (simp add: resolve_collisions_players sweep_score)

text \<open>
  Claim C8, amended. In one sweep the score of the player at position \<open>i\<close> of the
  snapshot grows by the number of coins of the list for which that player is the first one
  of the snapshot within the threshold (one point for each of them, with no bound of one
  coin for a player and a tick), and every such coin is dropped from the list.
\<close>

theorem player_collects_every_coin_it_reaches_first:
  assumes "i < length ps"
  shows "p_score (snd (snd (resolve_collisions cs ps) ! i)) =
           p_score (snd (ps ! i)) +
           int (length (filter
             (\<lambda>c. in_range c (snd (ps ! i)) \<and> (\<forall>k<i. \<not> in_range c (snd (ps ! k)))) cs)) \<and>
         (\<forall>c \<in> set cs. in_range c (snd (ps ! i)) \<and> (\<forall>k<i. \<not> in_range c (snd (ps ! k)))
            \<longrightarrow> c \<notin> set (fst (resolve_collisions cs ps)))"
proof -
  have eq: "first_hit c ps = Some i \<longleftrightarrow>
      in_range c (snd (ps ! i)) \<and> (\<forall>k<i. \<not> in_range c (snd (ps ! k)))" for c
    using assms by (simp add: first_hit_Some_iff)
  have "p_score (snd (snd (resolve_collisions cs ps) ! i)) =
      p_score (snd (ps ! i)) + int (length (filter (\<lambda>c. first_hit c ps = Some i) cs))"
    using assms by (rule sweep_score_resolve)
  then have 1: "p_score (snd (snd (resolve_collisions cs ps) ! i)) =
      p_score (snd (ps ! i)) + int (length (filter
        (\<lambda>c. in_range c (snd (ps ! i)) \<and> (\<forall>k<i. \<not> in_range c (snd (ps ! k)))) cs))"
    by (simp only: eq)
  have 2: "c \<notin> set (fst (resolve_collisions cs ps))"
    if "c \<in> set cs" "in_range c (snd (ps ! i)) \<and> (\<forall>k<i. \<not> in_range c (snd (ps ! k)))" for c
  proof -
    from that eq [of c] have "coin_id c \<in> coin_id ` {c \<in> set cs. first_hit c ps \<noteq> None}" by auto
    then show ?thesis by (simp add: resolve_collisions_coins)
  qed
  from 1 2 show ?thesis by blast
qed


text \<open>A lone player within the threshold of coins 1 and 2 and far from coin 3.\<close>

theorem player_collects_every_coin_it_reaches_first_witness:
  "p_score (snd (snd (resolve_collisions
      [\<lparr>coin_id = 1, coin_x = 100, coin_y = 100\<rparr>, \<lparr>coin_id = 2, coin_x = 110, coin_y = 100\<rparr>,
       \<lparr>coin_id = 3, coin_x = 500, coin_y = 500\<rparr>]
      [(0::nat, \<lparr>p_id = 1, p_x = 100, p_y = 100, p_score = 0,
          p_input = \<lparr>up = False, down = False, left = False, right = False\<rparr>\<rparr>)]) ! 0)) = 2 \<and>
   \<lparr>coin_id = 1, coin_x = 100, coin_y = 100\<rparr> \<notin> set (fst (resolve_collisions
      [\<lparr>coin_id = 1, coin_x = 100, coin_y = 100\<rparr>, \<lparr>coin_id = 2, coin_x = 110, coin_y = 100\<rparr>,
       \<lparr>coin_id = 3, coin_x = 500, coin_y = 500\<rparr>]
      [(0::nat, \<lparr>p_id = 1, p_x = 100, p_y = 100, p_score = 0,
          p_input = \<lparr>up = False, down = False, left = False, right = False\<rparr>\<rparr>)])) \<and>
   \<lparr>coin_id = 2, coin_x = 110, coin_y = 100\<rparr> \<notin> set (fst (resolve_collisions
      [\<lparr>coin_id = 1, coin_x = 100, coin_y = 100\<rparr>, \<lparr>coin_id = 2, coin_x = 110, coin_y = 100\<rparr>,
       \<lparr>coin_id = 3, coin_x = 500, coin_y = 500\<rparr>]
      [(0::nat, \<lparr>p_id = 1, p_x = 100, p_y = 100, p_score = 0,
          p_input = \<lparr>up = False, down = False, left = False, right = False\<rparr>\<rparr>)]))"
  using player_collects_every_coin_it_reaches_first [of 0
      "[(0::nat, \<lparr>p_id = 1, p_x = 100, p_y = 100, p_score = 0,
          p_input = \<lparr>up = False, down = False, left = False, right = False\<rparr>\<rparr>)]"
      "[\<lparr>coin_id = 1, coin_x = 100, coin_y = 100\<rparr>, \<lparr>coin_id = 2, coin_x = 110, coin_y = 100\<rparr>,
       \<lparr>coin_id = 3, coin_x = 500, coin_y = 500\<rparr>]"]
  by (simp add: in_range_iff)

text \<open>
  Claim C8 as it is stated fails when another player comes first in the snapshot: the
  second of two players at the same place is within the threshold of both coins, and the
  sweep gives both points to the first player.
\<close>

theorem in_range_of_two_coins_collects_none:
  "in_range \<lparr>coin_id = 1, coin_x = 100, coin_y = 100\<rparr>
     \<lparr>p_id = 2, p_x = 100, p_y = 100, p_score = 0,
        p_input = \<lparr>up = False, down = False, left = False, right = False\<rparr>\<rparr> \<and>
   in_range \<lparr>coin_id = 2, coin_x = 110, coin_y = 100\<rparr>
     \<lparr>p_id = 2, p_x = 100, p_y = 100, p_score = 0,
        p_input = \<lparr>up = False, down = False, left = False, right = False\<rparr>\<rparr> \<and>
   resolve_collisions
     [\<lparr>coin_id = 1, coin_x = 100, coin_y = 100\<rparr>, \<lparr>coin_id = 2, coin_x = 110, coin_y = 100\<rparr>]
     [(0::nat, \<lparr>p_id = 1, p_x = 100, p_y = 100, p_score = 0,
         p_input = \<lparr>up = False, down = False, left = False, right = False\<rparr>\<rparr>),
      (1, \<lparr>p_id = 2, p_x = 100, p_y = 100, p_score = 0,
         p_input = \<lparr>up = False, down = False, left = False, right = False\<rparr>\<rparr>)]
   = ([],
      [(0, \<lparr>p_id = 1, p_x = 100, p_y = 100, p_score = 2,
         p_input = \<lparr>up = False, down = False, left = False, right = False\<rparr>\<rparr>),
       (1, \<lparr>p_id = 2, p_x = 100, p_y = 100, p_score = 0,
         p_input = \<lparr>up = False, down = False, left = False, right = False\<rparr>\<rparr>)])"
  by (simp add: resolve_collisions_def in_range_iff Let_def)

text \<open>
  Claim C10. The test is strict. If the distance of a coin to every player of the snapshot
  is at least \<open>PLAYER_RADIUS + COIN_RADIUS\<close>, then the inner loop for that coin
  changes no score and does not leave through its break; run after any coins, it changes
  neither the snapshot nor the set of identifiers to remove; and when the identifiers of
  the coins are distinct, the coin is still in the list after the sweep.
\<close>

theorem out_of_range_coin_is_kept:
  assumes "\<forall>e \<in> set ps. real_of_int (PLAYER_RADIUS + COIN_RADIUS)
             \<le> hypot (p_x (snd e) - real_of_int (coin_x c)) (p_y (snd e) - real_of_int (coin_y c))"
  shows "collect_coin c ps = (ps, False) \<and>
         sweep (cs1 @ [c]) ps {} = sweep cs1 ps {} \<and>
         (c \<in> set cs \<and> distinct (map coin_id cs) \<longrightarrow> c \<in> set (fst (resolve_collisions cs ps)))"
proof -
  from assms have none: "first_hit c ps = None"
    by (auto simp: first_hit_None_iff in_range_def)
  then have 1: "collect_coin c ps = (ps, False)" by (rule collect_coin_miss)
  have "first_hit c (fst (sweep cs1 ps {})) = None" using none by simp
  then have "collect_coin c (fst (sweep cs1 ps {})) = (fst (sweep cs1 ps {}), False)"
    by (rule collect_coin_miss)
  then have 2: "sweep (cs1 @ [c]) ps {} = sweep cs1 ps {}"
    by (simp add: sweep_append Let_def)
  have 3: "c \<in> set (fst (resolve_collisions cs ps))"
    if c: "c \<in> set cs" and d: "distinct (map coin_id cs)"
  proof -
    have "coin_id c \<notin> coin_id ` {c' \<in> set cs. first_hit c' ps \<noteq> None}"
    proof
      assume "coin_id c \<in> coin_id ` {c' \<in> set cs. first_hit c' ps \<noteq> None}"
      then obtain c' where c': "c' \<in> set cs" "first_hit c' ps \<noteq> None" "coin_id c = coin_id c'"
        by auto
      from d have "inj_on coin_id (set cs)" by (simp add: distinct_map)
      with c c' have "c = c'" by (auto dest: inj_onD)
      with c' none show False by simp
    qed
    with c show ?thesis by (simp add: resolve_collisions_coins)
  qed
  from 1 2 3 show ?thesis by blast
qed

text \<open>A player at distance 35 exactly of the only coin.\<close>

theorem out_of_range_coin_is_kept_witness:
  "real_of_int (PLAYER_RADIUS + COIN_RADIUS) = hypot (135 - real_of_int 100) (100 - real_of_int 100) \<and>
   collect_coin \<lparr>coin_id = 1, coin_x = 100, coin_y = 100\<rparr>
     [(0::nat, \<lparr>p_id = 1, p_x = 135, p_y = 100, p_score = 0,
         p_input = \<lparr>up = False, down = False, left = False, right = False\<rparr>\<rparr>)]
   = ([(0, \<lparr>p_id = 1, p_x = 135, p_y = 100, p_score = 0,
         p_input = \<lparr>up = False, down = False, left = False, right = False\<rparr>\<rparr>)], False) \<and>
   \<lparr>coin_id = 1, coin_x = 100, coin_y = 100\<rparr> \<in> set (fst (resolve_collisions
     [\<lparr>coin_id = 1, coin_x = 100, coin_y = 100\<rparr>]
     [(0::nat, \<lparr>p_id = 1, p_x = 135, p_y = 100, p_score = 0,
         p_input = \<lparr>up = False, down = False, left = False, right = False\<rparr>\<rparr>)]))"
proof -
  have h: "hypot (135 - real_of_int 100) (100 - real_of_int 100) = real_of_int (PLAYER_RADIUS + COIN_RADIUS)"
    using real_sqrt_abs2 [of 35] by (simp add: hypot_def cdefs)
  show ?thesis
    using h out_of_range_coin_is_kept [of
      "[(0::nat, \<lparr>p_id = 1, p_x = 135, p_y = 100, p_score = 0,
         p_input = \<lparr>up = False, down = False, left = False, right = False\<rparr>\<rparr>)]"
      "\<lparr>coin_id = 1, coin_x = 100, coin_y = 100\<rparr>" "[]"
      "[\<lparr>coin_id = 1, coin_x = 100, coin_y = 100\<rparr>]"]
    by simp
qed

text \<open>The identifiers of the coins stay distinct from tick to tick.\<close>

lemma spawn_step_coin_ids_ok: "coin_ids_ok w \<Longrightarrow> coin_ids_ok (spawn_step now rnd w)"
  by (auto simp: coin_ids_ok_def spawn_step_def spawn_coin_def list_all_iff)

lemma game_tick_coin_ids_ok:
  assumes "coin_ids_ok w"
  shows "coin_ids_ok (fst (game_tick now rnd w ps))"
proof -
  let ?w1 = "spawn_step now rnd w"
  from assms have "coin_ids_ok ?w1" by (rule spawn_step_coin_ids_ok)
  then show ?thesis
    by (auto simp: coin_ids_ok_def game_tick_def Let_def resolve_collisions_coins
        distinct_map_filter list_all_iff)
qed

section \<open>Properties of the client\<close>

subsection \<open>Interpolation and correction\<close>




lemma local_correction_target [simp]:
  "ent_x (local_correction r e) = ent_x e" "ent_y (local_correction r e) = ent_y e"
  by (simp_all add: local_correction_def Let_def)

lemma local_frames_target [simp]:
  "ent_x (local_frames r n e) = ent_x e" "ent_y (local_frames r n e) = ent_y e"
  by (induction n) (simp_all add: local_frames_def)


lemma hypot_nonneg [simp]: "0 \<le> hypot a b"
  by (simp add: hypot_def)









subsection \<open>Snapshots and remote players\<close>


lemma bind_result_Inr [simp]: "bind_result (Inr a) f = f a"
  by (simp add: bind_result_def)

lemma bind_result_Inl [simp]: "bind_result (Inl e) f = Inl e"
  by (simp add: bind_result_def)











section \<open>Properties of the framing\<close>

subsection \<open>The loop of the receiver\<close>

lemma first_line_append:
  assumes "newline \<notin> set l"
  shows "first_line (l @ newline # rest) = l"
proof -
  have "\<forall>c \<in> set l. c \<noteq> newline" using assms by auto
  then show ?thesis by (simp add: first_line_def takeWhile_append2)
qed

lemma after_first_line_append:
  assumes "newline \<notin> set l"
  shows "after_first_line (l @ newline # rest) = rest"
proof -
  have "\<forall>c \<in> set l. c \<noteq> newline" using assms by auto
  then show ?thesis by (simp add: after_first_line_def dropWhile_append2)
qed

lemma split_at_newline:
  assumes "newline \<in> set b"
  shows "b = first_line b @ newline # after_first_line b \<and> newline \<notin> set (first_line b)"
proof -
  let ?P = "\<lambda>c. c \<noteq> newline"
  from assms have ne: "dropWhile ?P b \<noteq> []" by auto
  then have "hd (dropWhile ?P b) = newline" using hd_dropWhile [of ?P b] by simp
  with ne have "dropWhile ?P b = newline # tl (dropWhile ?P b)"
    by (metis list.collapse)
  then have "b = takeWhile ?P b @ newline # tl (dropWhile ?P b)"
    using takeWhile_dropWhile_id [of ?P b] by simp
  moreover have "newline \<notin> set (takeWhile ?P b)"
    by (auto dest: set_takeWhileD)
  ultimately show ?thesis by (simp add: first_line_def after_first_line_def)
qed

lemma recv_loop_no_newline:
  "newline \<notin> set b \<Longrightarrow> recv_loop loads b ms = (b, ms)"
  by (subst recv_loop.simps) simp

lemma recv_loop_line:
  assumes "newline \<notin> set l"
  shows "recv_loop loads (l @ newline # rest) ms = recv_loop loads rest (ms @ decode_line loads l)"
  by (subst recv_loop.simps)
    (simp add: first_line_append [OF assms] after_first_line_append [OF assms] decode_line_def
      split: option.splits)


lemma recv_loop_buffer_no_newline: "newline \<notin> set (fst (recv_loop loads b ms))"
proof (induction b arbitrary: ms rule: length_induct)
  case (1 b)
  show ?case
  proof (cases "newline \<in> set b")
    case False
    then show ?thesis by (simp add: recv_loop_no_newline)
  next
    case True
    let ?l = "first_line b" and ?r = "after_first_line b"
    from split_at_newline [OF True] have b: "b = ?l @ newline # ?r" and l: "newline \<notin> set ?l"
      by simp_all
    have len: "length ?r < length b" by (subst (2) b) simp
    have "recv_loop loads b ms = recv_loop loads ?r (ms @ decode_line loads ?l)"
      using recv_loop_line [OF l, of loads ?r ms] b by simp
    with 1 len show ?thesis by simp
  qed
qed

lemma recv_loop_chunks:
  "recv_loop loads (a @ b) ms =
     recv_loop loads (fst (recv_loop loads a ms) @ b) (snd (recv_loop loads a ms))"
proof (induction a arbitrary: ms rule: length_induct)
  case (1 a)
  show ?case
  proof (cases "newline \<in> set a")
    case False
    then show ?thesis by (simp add: recv_loop_no_newline)
  next
    case True
    let ?l = "first_line a" and ?r = "after_first_line a"
    from split_at_newline [OF True] have a: "a = ?l @ newline # ?r" and l: "newline \<notin> set ?l"
      by simp_all
    have len: "length ?r < length a" by (subst (2) a) simp
    have "recv_loop loads (a @ b) ms = recv_loop loads ((?l @ newline # ?r) @ b) ms"
      using a by simp
    also have "\<dots> = recv_loop loads (?r @ b) (ms @ decode_line loads ?l)"
      using recv_loop_line [OF l, of loads "?r @ b" ms] by simp
    also have "\<dots> = recv_loop loads (fst (recv_loop loads ?r (ms @ decode_line loads ?l)) @ b)
        (snd (recv_loop loads ?r (ms @ decode_line loads ?l)))"
      using 1 len by blast
    also have "recv_loop loads ?r (ms @ decode_line loads ?l) = recv_loop loads a ms"
      using recv_loop_line [OF l, of loads ?r ms] a by simp
    finally show ?thesis .
  qed
qed

lemma recv_loop_messages:
  "recv_loop loads b ms = (fst (recv_loop loads b []), ms @ snd (recv_loop loads b []))"
proof (induction b arbitrary: ms rule: length_induct)
  case (1 b)
  show ?case
  proof (cases "newline \<in> set b")
    case False
    then show ?thesis by (simp add: recv_loop_no_newline)
  next
    case True
    let ?l = "first_line b" and ?r = "after_first_line b"
    from split_at_newline [OF True] have b: "b = ?l @ newline # ?r" and l: "newline \<notin> set ?l"
      by simp_all
    have len: "length ?r < length b" by (subst (2) b) simp
    have step: "recv_loop loads b ms' = recv_loop loads ?r (ms' @ decode_line loads ?l)" for ms'
      using recv_loop_line [OF l, of loads ?r ms'] b by simp
    from 1 len have ih: "recv_loop loads ?r ms' =
        (fst (recv_loop loads ?r []), ms' @ snd (recv_loop loads ?r []))" for ms'
      by blast
    show ?thesis
      by (simp add: step [of ms] step [of "[]"] ih [of "ms @ decode_line loads ?l"]
          ih [of "decode_line loads ?l"])
  qed
qed

subsection \<open>Sending and receiving\<close>

lemma ascii_Nil [simp]: "ascii []"
  by (simp add: ascii_def)

lemma ascii_append [simp]: "ascii (a @ b) \<longleftrightarrow> ascii a \<and> ascii b"
  by (simp add: ascii_def)

lemma ascii_concat: "ascii (concat xs) \<longleftrightarrow> (\<forall>x \<in> set xs. ascii x)"
  by (induction xs) simp_all

lemma recv_frames_data:
  assumes dec: "\<forall>bs. ascii bs \<longrightarrow> decode bs = Some bs"
    and "\<forall>c \<in> set chunks. ascii c"
    and "newline \<notin> set buffer"
  shows "recv_frames decode loads (map Data chunks) buffer =
           Inr (recv_loop loads (buffer @ concat chunks) [])"
  using assms(2,3)
proof (induction chunks arbitrary: buffer)
  case Nil
  then show ?case by (simp add: recv_loop_no_newline)
next
  case (Cons c cs)
  show ?case
  proof (cases "c = []")
    case True
    have "recv_messages decode loads (Data c) buffer = Inr (buffer, [])"
      using True by (simp add: recv_messages_def)
    with Cons True show ?thesis by (simp add: bind_result_def)
  next
    case False
    let ?r = "recv_loop loads (buffer @ c) []"
    from Cons.prems dec have "decode c = Some c" by simp
    with False have m: "recv_messages decode loads (Data c) buffer = Inr ?r"
      by (simp add: recv_messages_def)
    have "recv_frames decode loads (map Data cs) (fst ?r) =
        Inr (recv_loop loads (fst ?r @ concat cs) [])"
      using Cons.prems by (intro Cons.IH) (simp_all add: recv_loop_buffer_no_newline)
    then have "recv_frames decode loads (map Data (c # cs)) buffer =
        Inr (fst (recv_loop loads (fst ?r @ concat cs) []),
             snd ?r @ snd (recv_loop loads (fst ?r @ concat cs) []))"
      by (simp add: m)
    also have "\<dots> = Inr (recv_loop loads (fst ?r @ concat cs) (snd ?r))"
      using recv_loop_messages [of loads "fst ?r @ concat cs" "snd ?r"] by simp
    also have "\<dots> = Inr (recv_loop loads ((buffer @ c) @ concat cs) [])"
      using recv_loop_chunks [of loads "buffer @ c" "concat cs" "[]"] by simp
    finally show ?thesis by simp
  qed
qed

lemma recv_loop_sent:
  assumes "\<forall>m \<in> set ms. newline \<notin> set (dumps m) \<and> strip (dumps m) \<noteq> [] \<and>
             loads (strip (dumps m)) = Some m"
    and "newline \<notin> set rest"
  shows "recv_loop loads (concat (map (\<lambda>m. dumps m @ [newline]) ms) @ rest) acc = (rest, acc @ ms)"
  using assms(1)
proof (induction ms arbitrary: acc)
  case Nil
  with assms(2) show ?case by (simp add: recv_loop_no_newline)
next
  case (Cons m ms)
  then have m: "newline \<notin> set (dumps m)" "decode_line loads (dumps m) = [m]"
    by (simp_all add: decode_line_def)
  have "recv_loop loads (concat (map (\<lambda>m. dumps m @ [newline]) (m # ms)) @ rest) acc =
      recv_loop loads (dumps m @ newline # (concat (map (\<lambda>m. dumps m @ [newline]) ms) @ rest)) acc"
    by simp
  also have "\<dots> = recv_loop loads (concat (map (\<lambda>m. dumps m @ [newline]) ms) @ rest) (acc @ [m])"
    using recv_loop_line [OF m(1)] m(2) by simp
  also have "\<dots> = (rest, (acc @ [m]) @ ms)"
    using Cons.prems by (intro Cons.IH) simp
  finally show ?case by simp
qed

text \<open>
  Claim C4. Let the server send the messages \<open>ms\<close> one after the other, and
  let the bytes sent, followed by the bytes \<open>rest\<close> of a line that is not complete
  yet, reach the client cut into chunks in any way (a chunk may be empty). Then the calls
  of \<^verbatim>\<open>recv_messages\<close>, each with the buffer of the call before and the first
  with the empty buffer, return the messages \<open>ms\<close>, each once and in the order sent,
  and the last buffer is \<open>rest\<close>.

  What is assumed of Python's library: the UTF-8 codec leaves ASCII text as it is; and for
  each message sent, the text of \<^verbatim>\<open>json.dumps\<close> is ASCII, has no line
  break, is not blank, and \<^verbatim>\<open>json.loads\<close> reads the message back from it.
\<close>

theorem framing_round_trip:
  assumes "\<forall>bs. ascii bs \<longrightarrow> decode bs = Some bs"
    and "\<forall>s. ascii s \<longrightarrow> encode s = s"
    and "\<forall>m \<in> set ms. ascii (dumps m) \<and> newline \<notin> set (dumps m) \<and> strip (dumps m) \<noteq> [] \<and>
           loads (strip (dumps m)) = Some m"
    and "ascii rest" and "newline \<notin> set rest"
    and "concat chunks = concat (map (send_message encode dumps) ms) @ rest"
  shows "recv_frames decode loads (map Data chunks) [] = Inr (rest, ms)"
proof -
  have nl: "ascii [newline]" by (simp add: ascii_def newline_def)
  have sent: "send_message encode dumps m = dumps m @ [newline]" if "m \<in> set ms" for m
    using that assms(2,3) nl by (simp add: send_message_def)
  then have wire: "concat chunks = concat (map (\<lambda>m. dumps m @ [newline]) ms) @ rest"
    using assms(6) by (simp cong: map_cong)
  have "ascii (concat (map (\<lambda>m. dumps m @ [newline]) ms))"
    using assms(3) nl by (simp add: ascii_concat)
  with wire assms(4) have "ascii (concat chunks)" by simp
  then have "\<forall>c \<in> set chunks. ascii c" by (simp add: ascii_concat)
  with assms(1) have "recv_frames decode loads (map Data chunks) [] =
      Inr (recv_loop loads ([] @ concat chunks) [])"
    by (intro recv_frames_data) simp_all
  also have "\<dots> = Inr (rest, [] @ ms)"
    using assms(3,5) by (simp add: wire recv_loop_sent)
  finally show ?thesis by simp
qed


text \<open>
  Two messages and the beginning of a third, in four chunks, one of them empty, cut inside
  the first message and before the line break of the second.
\<close>

theorem framing_round_trip_witness:
  "concat [''nu'', ''ll'' @ [newline] @ ''true'', [], [newline] @ ''tr''] =
     concat (map (send_message (\<lambda>s. s) (\<lambda>m. if m = JNull then ''null'' else ''true''))
       [JNull, JBool True]) @ ''tr'' \<and>
   recv_frames (\<lambda>b. if ascii b then Some b else None)
     (\<lambda>s. if s = ''null'' then Some JNull else if s = ''true'' then Some (JBool True) else None)
     (map Data [''nu'', ''ll'' @ [newline] @ ''true'', [], [newline] @ ''tr'']) []
   = Inr (''tr'', [JNull, JBool True])"
proof -
  have c: "concat [''nu'', ''ll'' @ [newline] @ ''true'', [], [newline] @ ''tr''] =
     concat (map (send_message (\<lambda>s. s) (\<lambda>m. if m = JNull then ''null'' else ''true''))
       [JNull, JBool True]) @ ''tr''"
    by (simp add: send_message_def)
  have "recv_frames (\<lambda>b. if ascii b then Some b else None)
     (\<lambda>s. if s = ''null'' then Some JNull else if s = ''true'' then Some (JBool True) else None)
     (map Data [''nu'', ''ll'' @ [newline] @ ''true'', [], [newline] @ ''tr'']) []
   = Inr (''tr'', [JNull, JBool True])"
    by (rule framing_round_trip [where encode = "\<lambda>s. s"
          and dumps = "\<lambda>m. if m = JNull then ''null'' else ''true''", OF _ _ _ _ _ c])
      (simp_all add: ascii_def newline_def strip_def is_space_def)
  with c show ?thesis by simp
qed

section \<open>Properties of the decoding of messages\<close>

subsection \<open>Blank and malformed lines\<close>


lemma handle_line_malformed:
  assumes "strip line \<noteq> []" and "loads (strip line) = None"
  shows "handle_line loads rnd conn line s = Inr (Next, s)"
  using assms by (simp add: handle_line_def Let_def)

lemma handle_line_blank:
  assumes "strip line = []"
  shows "handle_line loads rnd conn line s = Inr (Stop, s)"
  using assms by (simp add: handle_line_def Let_def)

lemma handle_lines_malformed:
  assumes "strip line \<noteq> []" and "loads (strip line) = None"
  shows "handle_lines loads rnd conn (line # lines) s = handle_lines loads rnd conn lines s"
  using assms by (simp add: handle_line_malformed)

lemma handle_lines_blank:
  assumes "strip line = []"
  shows "handle_lines loads rnd conn (line # lines) s = (Break, s)"
  using assms by (simp add: handle_line_blank)

lemma recv_loop_skips:
  assumes "newline \<notin> set l" and "strip l = [] \<or> loads (strip l) = None"
  shows "recv_loop loads (l @ newline # rest) ms = recv_loop loads rest ms"
  using assms recv_loop_line [of l loads rest ms] by (auto simp: decode_line_def)

subsection \<open>Absent fields\<close>






text \<open>
  The claim is about the fields of a message. The fields of an element of the list of
  players are read by subscript, with no default: an element without
  \<^verbatim>\<open>x\<close> raises \<^verbatim>\<open>KeyError\<close>.
\<close>

lemma player_entry_without_x_raises:
  "update_entities_from_server parse (JArr [JObj [(''id'', JInt 1)]]) es = Inl KeyError"
  by (simp add: update_entities_from_server_def update_entity_def)

subsection \<open>A blank line on the server\<close>

text \<open>
  Claim C5 does not hold for the server. \<^verbatim>\<open>handle_client\<close> leaves its loop at
  a blank line (\<^verbatim>\<open>if not line: break\<close>), whatever lines follow, and removes the
  player of the connection; \<^verbatim>\<open>recv_messages\<close> of the client goes on with the
  rest of the buffer (\<^verbatim>\<open>if not line: continue\<close>). For a malformed line both
  go on, as \<open>handle_lines_malformed\<close> and \<open>recv_loop_skips\<close> say.
\<close>

theorem blank_line_ends_server_loop:
  "handle_lines loads rnd conn ([newline] # lines) s = (Break, s) \<and>
   handle_client loads rnd conn ([newline] # lines) st =
     (Break, st\<lparr>players := AList.delete conn (players st)\<rparr>) \<and>
   recv_loop loads (newline # rest) ms = recv_loop loads rest ms"
proof -
  have b: "strip [newline] = []"
    by (simp add: strip_def is_space_def newline_def)
  have "recv_loop loads ([] @ newline # rest) ms = recv_loop loads rest ms"
    by (rule recv_loop_skips) (simp_all add: strip_def)
  then show ?thesis
    by (simp add: handle_line_blank [OF b] handle_client_def Let_def)
qed

text \<open>
  A join behind a blank line: the server ends the loop with no player registered, and
  registers player 1 when the blank line is not there.
\<close>

lemma join_behind_blank_line:
  "handle_lines (\<lambda>s. if s = ''join'' then Some (JObj [(''type'', JStr ''join'')]) else None)
     (\<lambda>i. (100, 100)) (0::nat) [[newline], ''join'' @ [newline]]
     (\<lparr>players = [], next_player_id = 1\<rparr>, None)
   = (Break, \<lparr>players = [], next_player_id = 1\<rparr>, None) \<and>
   handle_lines (\<lambda>s. if s = ''join'' then Some (JObj [(''type'', JStr ''join'')]) else None)
     (\<lambda>i. (100, 100)) (0::nat) [''join'' @ [newline]]
     (\<lparr>players = [], next_player_id = 1\<rparr>, None)
   = (EndOfStream,
      \<lparr>players = [(0, \<lparr>p_id = 1, p_x = 100, p_y = 100, p_score = 0,
          p_input = \<lparr>up = False, down = False, left = False, right = False\<rparr>\<rparr>)],
       next_player_id = 2\<rparr>, Some 1)"
  by (simp add: handle_line_def handle_message_def strip_def is_space_def newline_def
      bind_result_def Let_def)


end
